theory Spec2Isabelle
  imports Main "HOL-Library.Log_Nat"
begin

section \<open>Python values: strings, numbers, errors\<close>

text \<open>
  Source text is a Python \<open>str\<close>. It is modelled as a list of 8-bit characters, each read
  as one code point below 256; text with code points beyond that range is outside the
  model. Lower-casing, the regular-expression classes and the case-insensitive comparison
  below are Python's on that range.
\<close>

definition lower_chr :: "char \<Rightarrow> char" where
  "lower_chr c = (let n = (of_char c :: nat) in
     if (65 \<le> n \<and> n \<le> 90) \<or> (192 \<le> n \<and> n \<le> 222 \<and> n \<noteq> 215)
     then char_of (n + 32) else c)"

definition lower :: "string \<Rightarrow> string" where
  "lower s = map lower_chr s"

text \<open>\<open>str.upper\<close> on ASCII letters; the category tags it is applied to are ASCII.\<close>

definition upper_chr :: "char \<Rightarrow> char" where
  "upper_chr c = (let n = (of_char c :: nat) in
     if 97 \<le> n \<and> n \<le> 122 then char_of (n - 32) else c)"

definition upper :: "string \<Rightarrow> string" where
  "upper s = map upper_chr s"

fun starts_with :: "string \<Rightarrow> string \<Rightarrow> bool" where
  "starts_with s [] = True"
| "starts_with [] (p # ps) = False"
| "starts_with (c # cs) (p # ps) = (c = p \<and> starts_with cs ps)"

text \<open>\<open>contains s sub\<close> is Python's \<open>sub in s\<close>.\<close>

fun contains :: "string \<Rightarrow> string \<Rightarrow> bool" where
  "contains [] sub = (sub = [])"
| "contains (c # cs) sub = (starts_with (c # cs) sub \<or> contains cs sub)"

text \<open>
  \<open>str.count\<close> counts non-overlapping occurrences from the left: after an occurrence the
  scan resumes behind it (\<open>skip\<close> characters are passed over).
\<close>

fun count_from :: "string \<Rightarrow> string \<Rightarrow> nat \<Rightarrow> nat" where
  "count_from [] sub skip = 0"
| "count_from (c # cs) sub skip =
     (if 0 < skip then count_from cs sub (skip - 1)
      else if starts_with (c # cs) sub then Suc (count_from cs sub (length sub - 1))
      else count_from cs sub 0)"

definition str_count :: "string \<Rightarrow> string \<Rightarrow> nat" where
  "str_count s sub = (if sub = [] then Suc (length s) else count_from s sub 0)"

text \<open>\<open>s.replace(c, "")\<close> for a one-character \<open>c\<close>.\<close>

definition remove_chr :: "char \<Rightarrow> string \<Rightarrow> string" where
  "remove_chr ch s = filter (\<lambda>c. c \<noteq> ch) s"

text \<open>The slice \<open>s[i:j]\<close> for \<open>0 \<le> i\<close>, \<open>0 \<le> j\<close>.\<close>

definition slice :: "string \<Rightarrow> nat \<Rightarrow> nat \<Rightarrow> string" where
  "slice s i j = take (j - i) (drop i s)"

definition newline :: char where
  "newline = CHR 0x0A"

fun str_of_nat :: "nat \<Rightarrow> string" where
  "str_of_nat n =
     (if n < 10 then [char_of (48 + n)]
      else str_of_nat (n div 10) @ [char_of (48 + n mod 10)])"

declare str_of_nat.simps [simp del]

text \<open>The format \<open>{n:,}\<close>: decimal digits in groups of three.\<close>

fun group_thousands :: "nat \<Rightarrow> string" where
  "group_thousands n =
     (if n < 1000 then str_of_nat n
      else group_thousands (n div 1000) @ '','' @
        [char_of (48 + (n mod 1000) div 100), char_of (48 + (n mod 100) div 10),
         char_of (48 + n mod 10)])"

declare group_thousands.simps [simp del]

datatype py_error = IndexError

subsection \<open>Binary64 floating point\<close>

text \<open>
  A Python \<open>float\<close> (and a numpy \<open>float64\<close>) is modelled by the rational it denotes.
  Every arithmetic operation is the exact operation followed by \<open>fl\<close>, rounding to the
  nearest binary64 value, ties to even, with the gradual underflow of the format.
  Overflow to infinity is not modelled: no value of the analysis comes near \<open>2^1024\<close>.
  A decimal literal \<open>d\<close> of the source denotes \<open>fl d\<close>.
\<close>

type_synonym float = rat

definition pow2 :: "int \<Rightarrow> rat" where
  "pow2 e = (if 0 \<le> e then 2 ^ nat e else 1 / 2 ^ nat (- e))"

text \<open>For \<open>0 < x\<close>, \<open>ilog2 x\<close> is the exponent \<open>e\<close> with \<open>2^e \<le> x < 2^(e+1)\<close>.\<close>

definition ilog2 :: "rat \<Rightarrow> int" where
  "ilog2 x = (if 1 \<le> x then bitlen \<lfloor>x\<rfloor> - 1 else - bitlen (\<lceil>1 / x\<rceil> - 1))"

definition round_half_even :: "rat \<Rightarrow> int" where
  "round_half_even m = (let f = \<lfloor>m\<rfloor>; d = m - of_int f in
     if d < 1 / 2 then f else if 1 / 2 < d then f + 1 else if even f then f else f + 1)"

definition fl :: "rat \<Rightarrow> float" where
  "fl x = (if x = 0 then 0 else
     let e = max (ilog2 \<bar>x\<bar>) (- 1022); u = pow2 (e - 52)
     in sgn x * of_int (round_half_even (\<bar>x\<bar> / u)) * u)"

text \<open>The spacing of the binary64 values around \<open>x\<close>.\<close>

definition ulp :: "rat \<Rightarrow> rat" where
  "ulp x = pow2 (max (ilog2 \<bar>x\<bar>) (- 1022) - 52)"

definition fadd :: "float \<Rightarrow> float \<Rightarrow> float" where
  "fadd a b = fl (a + b)"

definition fsub :: "float \<Rightarrow> float \<Rightarrow> float" where
  "fsub a b = fl (a - b)"

definition fmul :: "float \<Rightarrow> float \<Rightarrow> float" where
  "fmul a b = fl (a * b)"

definition fdiv :: "float \<Rightarrow> float \<Rightarrow> float" where
  "fdiv a b = fl (a / b)"

definition float_of_int :: "int \<Rightarrow> float" where
  "float_of_int n = fl (of_int n)"

text \<open>\<open>int(x)\<close> on a float truncates towards zero.\<close>

definition py_int :: "float \<Rightarrow> int" where
  "py_int x = (if 0 \<le> x then \<lfloor>x\<rfloor> else \<lceil>x\<rceil>)"

text \<open>Python's \<open>min(a, b)\<close> returns \<open>a\<close> unless \<open>b < a\<close>.\<close>

definition py_min :: "float \<Rightarrow> float \<Rightarrow> float" where
  "py_min a b = (if b < a then b else a)"

text \<open>The format \<open>{x:.2f}\<close> of a non-negative float: the nearest two-decimal numeral.\<close>

definition fmt_2f :: "float \<Rightarrow> string" where
  "fmt_2f x = (let n = nat (round_half_even (x * 100)) in
     str_of_nat (n div 100) @ ''.'' @
       [char_of (48 + (n mod 100) div 10), char_of (48 + n mod 10)])"

section \<open>Data model\<close>

datatype VulnerabilityType =
    REENTRANCY | INTEGER_OVERFLOW | UNAUTHORIZED_ACCESS | MISSING_SIGNER_CHECK
  | UNINITIALIZED_ACCOUNT | ARITHMETIC_ERROR | LOGIC_ERROR | FRONT_RUNNING
  | TIMESTAMP_DEPENDENCY | QUANTUM_VULNERABLE

fun vuln_value :: "VulnerabilityType \<Rightarrow> string" where
  "vuln_value REENTRANCY = ''reentrancy''"
| "vuln_value INTEGER_OVERFLOW = ''integer_overflow''"
| "vuln_value UNAUTHORIZED_ACCESS = ''unauthorized_access''"
| "vuln_value MISSING_SIGNER_CHECK = ''missing_signer_check''"
| "vuln_value UNINITIALIZED_ACCOUNT = ''uninitialized_account''"
| "vuln_value ARITHMETIC_ERROR = ''arithmetic_error''"
| "vuln_value LOGIC_ERROR = ''logic_error''"
| "vuln_value FRONT_RUNNING = ''front_running''"
| "vuln_value TIMESTAMP_DEPENDENCY = ''timestamp_dependency''"
| "vuln_value QUANTUM_VULNERABLE = ''quantum_vulnerable''"

subsection \<open>Regular expressions\<close>

text \<open>
  The fragment of Python's \<open>re\<close> syntax that the five patterns use, matched by
  backtracking in the engine's order: alternatives left to right, repetitions greedy.
  Repetition is applied to single-character atoms only, as in the patterns. Groups
  capture but do not change what is matched, so they are not represented.
  The flag \<open>IGNORECASE\<close> is built into \<open>Lit\<close>; \<open>MULTILINE\<close> changes only the anchors,
  which no pattern uses; without \<open>DOTALL\<close> the dot stops at a newline.
\<close>

datatype atom = Lit char | Dot | Space | Word

datatype regex =
    Eps
  | Atom atom
  | Seq regex regex
  | Alt regex regex
  | Star atom
  | Plus atom
  | Not_ahead regex

definition is_space :: "char \<Rightarrow> bool" where
  "is_space c = (let n = (of_char c :: nat) in
     (9 \<le> n \<and> n \<le> 13) \<or> (28 \<le> n \<and> n \<le> 32) \<or> n = 133 \<or> n = 160)"

definition is_word :: "char \<Rightarrow> bool" where
  "is_word c = (let n = (of_char c :: nat) in
     (48 \<le> n \<and> n \<le> 57) \<or> (65 \<le> n \<and> n \<le> 90) \<or> n = 95 \<or> (97 \<le> n \<and> n \<le> 122) \<or>
     n = 170 \<or> n = 178 \<or> n = 179 \<or> n = 181 \<or> n = 185 \<or> n = 186 \<or>
     n = 188 \<or> n = 189 \<or> n = 190 \<or>
     (192 \<le> n \<and> n \<le> 255 \<and> n \<noteq> 215 \<and> n \<noteq> 247))"

fun atom_ok :: "atom \<Rightarrow> char \<Rightarrow> bool" where
  "atom_ok (Lit p) c = (lower_chr c = lower_chr p)"
| "atom_ok Dot c = (c \<noteq> newline)"
| "atom_ok Space c = is_space c"
| "atom_ok Word c = is_word c"

fun lit :: "string \<Rightarrow> regex" where
  "lit [] = Eps"
| "lit (c # cs) = Seq (Atom (Lit c)) (lit cs)"

fun seqs :: "regex list \<Rightarrow> regex" where
  "seqs [] = Eps"
| "seqs (r # rs) = Seq r (seqs rs)"

text \<open>
  \<open>star_k a s k\<close> matches as many \<open>a\<close> as it can at the head of \<open>s\<close> and then the rest of the
  pattern, the continuation \<open>k\<close>; when \<open>k\<close> fails it gives back one character at a time.
\<close>

fun star_k :: "atom \<Rightarrow> string \<Rightarrow> (string \<Rightarrow> nat option) \<Rightarrow> nat option" where
  "star_k a [] k = k []"
| "star_k a (c # cs) k =
     (if atom_ok a c
      then (case star_k a cs k of Some r \<Rightarrow> Some r | None \<Rightarrow> k (c # cs))
      else k (c # cs))"

fun rmatch :: "regex \<Rightarrow> string \<Rightarrow> (string \<Rightarrow> nat option) \<Rightarrow> nat option" where
  "rmatch Eps s k = k s"
| "rmatch (Atom a) s k =
     (case s of [] \<Rightarrow> None | c # cs \<Rightarrow> if atom_ok a c then k cs else None)"
| "rmatch (Seq r1 r2) s k = rmatch r1 s (\<lambda>t. rmatch r2 t k)"
| "rmatch (Alt r1 r2) s k =
     (case rmatch r1 s k of Some r \<Rightarrow> Some r | None \<Rightarrow> rmatch r2 s k)"
| "rmatch (Star a) s k = star_k a s k"
| "rmatch (Plus a) s k =
     (case s of [] \<Rightarrow> None | c # cs \<Rightarrow> if atom_ok a c then star_k a cs k else None)"
| "rmatch (Not_ahead r) s k =
     (case rmatch r s (\<lambda>t. Some 0) of Some r \<Rightarrow> None | None \<Rightarrow> k s)"

text \<open>The match of \<open>r\<close> at the head of \<open>s\<close>: the number of characters it spans.\<close>

definition match_at :: "regex \<Rightarrow> string \<Rightarrow> nat option" where
  "match_at r s = rmatch r s (\<lambda>t. Some (length s - length t))"

text \<open>
  \<open>re.finditer\<close>: the spans \<open>(start, end)\<close> of the non-overlapping matches, left to right.
  After a match the search resumes at its end (\<open>skip\<close> counts the characters still inside
  it); after an empty match it moves on by one character.
\<close>

fun scan :: "regex \<Rightarrow> string \<Rightarrow> nat \<Rightarrow> nat \<Rightarrow> (nat \<times> nat) list" where
  "scan r [] pos skip =
     (if 0 < skip then []
      else case match_at r [] of Some n \<Rightarrow> [(pos, pos + n)] | None \<Rightarrow> [])"
| "scan r (c # cs) pos skip =
     (if 0 < skip then scan r cs (Suc pos) (skip - 1)
      else case match_at r (c # cs) of
          Some n \<Rightarrow> (pos, pos + n) # scan r cs (Suc pos) (n - 1)
        | None \<Rightarrow> scan r cs (Suc pos) 0)"

definition finditer :: "regex \<Rightarrow> string \<Rightarrow> (nat \<times> nat) list" where
  "finditer r code = scan r code 0 0"

subsection \<open>Records\<close>

record VulnerabilityPattern =
  vuln_type :: VulnerabilityType
  pattern :: regex
  pat_severity :: int
  pat_description :: string
  pat_recommendation :: string
  confidence_threshold :: float

text \<open>
  A finding is a Python dict. The detectors fill all six keys; the aggregation reads
  \<open>type\<close>, \<open>severity\<close>, \<open>confidence\<close> and \<open>recommendation\<close> with \<open>dict.get\<close> and a default,
  so these four are optional here.
\<close>

record finding =
  ftype :: "string option"
  severity :: "int option"
  description :: string
  location :: string
  confidence :: "float option"
  recommendation :: "string option"

definition get_or :: "'a \<Rightarrow> 'a option \<Rightarrow> 'a" where
  "get_or d x = (case x of None \<Rightarrow> d | Some v \<Rightarrow> v)"

record DetectionResult =
  program_address :: string
  vulnerabilities :: "finding list"
  security_score :: int
  risk_level :: string
  recommendations :: "string list"
  quantum_resistant :: bool
  timestamp :: int

record quantum_pattern =
  qname :: string
  indicators :: "string list"
  quantum_safe :: bool
  qseverity :: int
  qrecommendation :: string

record exploit =
  exploit_type :: string
  loss_amount :: nat
  date :: string
  pattern_signature :: string

section \<open>The detector\<close>

definition initialize_patterns :: "VulnerabilityPattern list" where
  "initialize_patterns =
    [\<lparr>vuln_type = MISSING_SIGNER_CHECK,
      pattern = seqs [Not_ahead (seqs [Star Dot, lit ''require!'', Star Dot, lit ''Signer'']),
                      Star Dot, lit ''Transfer'', Star Dot],
      pat_severity = 9,
      pat_description = ''Missing signer verification before token transfer'',
      pat_recommendation = ''Add require!(ctx.accounts.authority.is_signer) before transfers'',
      confidence_threshold = fl (85 / 100)\<rparr>,
     \<lparr>vuln_type = INTEGER_OVERFLOW,
      pattern = seqs [lit ''.checked_'',
                      Alt (lit ''add'') (Alt (lit ''sub'') (Alt (lit ''mul'') (lit ''div''))),
                      lit ''(''],
      pat_severity = 8,
      pat_description = ''Arithmetic operation without overflow protection'',
      pat_recommendation = ''Use checked_add/sub/mul/div instead of direct arithmetic'',
      confidence_threshold = fl (90 / 100)\<rparr>,
     \<lparr>vuln_type = UNINITIALIZED_ACCOUNT,
      pattern = seqs [lit ''Account<'', Atom (Lit (CHR 0x27)), lit ''info,'', Star Space,
                      Plus Word, lit ''>'', Star Dot, Not_ahead (lit ''init'')],
      pat_severity = 7,
      pat_description = ''Account used without initialization check'',
      pat_recommendation = ''Add #[account(init)] or verify account is initialized'',
      confidence_threshold = fl (80 / 100)\<rparr>,
     \<lparr>vuln_type = REENTRANCY,
      pattern = seqs [Alt (lit ''invoke'') (lit ''invoke_signed''), Star Dot,
                      Atom (Lit newline), Star Dot, lit ''state'', Star Space, lit ''=''],
      pat_severity = 10,
      pat_description = ''State change after external call (reentrancy risk)'',
      pat_recommendation =
        ''Update state before making external calls (checks-effects-interactions)'',
      confidence_threshold = fl (95 / 100)\<rparr>,
     \<lparr>vuln_type = QUANTUM_VULNERABLE,
      pattern = seqs [Alt (lit ''ed25519'') (Alt (lit ''secp256k1'') (lit ''ECDSA'')),
                      Not_ahead (seqs [Star Dot, lit ''quantum''])],
      pat_severity = 6,
      pat_description = ''Uses classical cryptography vulnerable to quantum attacks'',
      pat_recommendation =
        ''Implement post-quantum cryptographic signatures (Dilithium, SPHINCS+)'',
      confidence_threshold = fl (75 / 100)\<rparr>]"

definition initialize_quantum_patterns :: "quantum_pattern list" where
  "initialize_quantum_patterns =
    [\<lparr>qname = ''Classical Signature Scheme'',
      indicators = [''ed25519'', ''secp256k1'', ''ECDSA'', ''RSA''],
      quantum_safe = False, qseverity = 6,
      qrecommendation = ''Migrate to CRYSTALS-Dilithium or SPHINCS+''\<rparr>,
     \<lparr>qname = ''Symmetric Encryption'',
      indicators = [''AES-128'', ''AES-192''],
      quantum_safe = False, qseverity = 5,
      qrecommendation = ''Use AES-256 minimum (provides 128-bit quantum security)''\<rparr>,
     \<lparr>qname = ''Hash Functions'',
      indicators = [''SHA-256'', ''SHA3-256''],
      quantum_safe = True, qseverity = 0,
      qrecommendation = ''SHA-256/SHA3 are quantum-resistant''\<rparr>]"

definition load_historical_data :: "exploit list" where
  "load_historical_data =
    [\<lparr>exploit_type = ''reentrancy'', loss_amount = 40000000, date = ''2026-01-30'',
      pattern_signature = ''external_call_before_state_update''\<rparr>,
     \<lparr>exploit_type = ''unauthorized_access'', loss_amount = 3100000000,
      date = ''2025-12-15'', pattern_signature = ''missing_authority_check''\<rparr>]"

text \<open>
  \<open>calculate_confidence\<close> reads the match only through \<open>match.start()\<close> and
  \<open>match.end()\<close>. \<open>start - 100\<close> is a subtraction of naturals here, which is
  \<open>max(0, start - 100)\<close>.
\<close>

definition calculate_confidence ::
  "string \<Rightarrow> nat \<times> nat \<Rightarrow> VulnerabilityPattern \<Rightarrow> float" where
  "calculate_confidence code m pat =
    (let base0 = fl (7 / 10);
         context_start = fst m - 100;
         context_end = min (length code) (snd m + 100);
         context = slice code context_start context_end;
         base1 = (if contains context ''unsafe'' then fadd base0 (fl (1 / 10)) else base0);
         base2 = (if contains context ''unwrap()'' then fadd base1 (fl (5 / 100)) else base1);
         base3 = (if \<not> contains context ''require!'' then fadd base2 (fl (1 / 10)) else base2)
     in py_min base3 1)"

definition pattern_finding ::
  "string \<Rightarrow> nat \<times> nat \<Rightarrow> VulnerabilityPattern \<Rightarrow> float \<Rightarrow> finding" where
  "pattern_finding code m pat conf =
    \<lparr>ftype = Some (vuln_value (vuln_type pat)),
     severity = Some (pat_severity pat),
     description = pat_description pat,
     location = ''Line '' @ str_of_nat (str_count (take (fst m) code) [newline] + 1),
     confidence = Some conf,
     recommendation = Some (pat_recommendation pat)\<rparr>"

definition detect_pattern :: "string \<Rightarrow> VulnerabilityPattern \<Rightarrow> finding list" where
  "detect_pattern code pat =
    concat (map (\<lambda>m. let conf = calculate_confidence code m pat in
                       if confidence_threshold pat \<le> conf
                       then [pattern_finding code m pat conf] else [])
                (finditer (pattern pat) code))"

definition extract_features :: "string \<Rightarrow> float list" where
  "extract_features code =
    (let features =
           [length code, str_count code [newline], str_count code ''fn '',
            str_count code ''require!'', str_count code ''invoke'',
            str_count code ''Transfer'', str_count code ''mut '', str_count code ''unsafe''];
         features_array = map (\<lambda>n. float_of_int (int n)) features;
         mx = foldl max (hd features_array) (tl features_array)
     in map (\<lambda>x. fdiv x (fadd mx (fl (1 / 10 ^ 10)))) features_array)"

text \<open>Indexing an array that is too short raises \<open>IndexError\<close>.\<close>

definition compute_anomaly_score :: "float list \<Rightarrow> py_error + float" where
  "compute_anomaly_score features =
    (if length features < 8 then Inl IndexError
     else
       let expected_checks_ratio = fl (1 / 10);
           expected_unsafe_ratio = fl (1 / 100);
           checks_deviation = \<bar>fsub (features ! 3) expected_checks_ratio\<bar>;
           unsafe_deviation = \<bar>fsub (features ! 7) expected_unsafe_ratio\<bar>;
           anomaly_score = fdiv (fadd checks_deviation (fmul unsafe_deviation 5)) 2
       in Inr (py_min anomaly_score 1))"

definition anomaly_finding :: "float \<Rightarrow> finding" where
  "anomaly_finding anomaly_score =
    \<lparr>ftype = Some ''anomaly_detected'',
     severity = Some (py_int (fmul anomaly_score 10)),
     description = ''Unusual code patterns detected (anomaly score: '' @
                   fmt_2f anomaly_score @ '')'',
     location = ''Multiple locations'',
     confidence = Some anomaly_score,
     recommendation = Some ''Manual review recommended for unusual patterns''\<rparr>"

definition ml_anomaly_detection :: "string \<Rightarrow> py_error + finding list" where
  "ml_anomaly_detection code =
    (case compute_anomaly_score (extract_features code) of
       Inl e \<Rightarrow> Inl e
     | Inr anomaly_score \<Rightarrow>
         Inr (if fl (7 / 10) < anomaly_score then [anomaly_finding anomaly_score] else []))"

definition quantum_finding :: "quantum_pattern \<Rightarrow> finding" where
  "quantum_finding p =
    \<lparr>ftype = Some (vuln_value QUANTUM_VULNERABLE),
     severity = Some (qseverity p),
     description = ''Uses '' @ qname p @ '' which is vulnerable to quantum attacks'',
     location = ''Cryptographic implementation'',
     confidence = Some (fl (95 / 100)),
     recommendation = Some (qrecommendation p)\<rparr>"

definition assess_quantum_resistance :: "string \<Rightarrow> finding list" where
  "assess_quantum_resistance code =
    concat (map (\<lambda>p. concat (map (\<lambda>indicator.
        if contains (lower code) (lower indicator) \<and> \<not> quantum_safe p
        then [quantum_finding p] else []) (indicators p)))
      initialize_quantum_patterns)"

definition historical_finding :: "exploit \<Rightarrow> finding" where
  "historical_finding ex =
    \<lparr>ftype = Some (exploit_type ex),
     severity = Some 10,
     description = ''Code matches pattern from $'' @ group_thousands (loss_amount ex) @
                   '' exploit on '' @ date ex,
     location = ''Pattern match'',
     confidence = Some (fl (88 / 100)),
     recommendation = Some ''This pattern caused major losses. Review immediately.''\<rparr>"

definition match_historical_exploits :: "string \<Rightarrow> finding list" where
  "match_historical_exploits code =
    concat (map (\<lambda>ex.
        if contains (remove_chr (CHR '' '') (remove_chr (CHR ''_'') (lower code)))
                    (pattern_signature ex)
        then [historical_finding ex] else [])
      load_historical_data)"

definition deduct :: "float \<Rightarrow> finding \<Rightarrow> float" where
  "deduct score vuln =
    fsub score (fmul (float_of_int (get_or 5 (severity vuln)))
                     (get_or (fl (5 / 10)) (confidence vuln)))"

definition calculate_security_score :: "finding list \<Rightarrow> int" where
  "calculate_security_score vulns =
    (if vulns = [] then 100 else max 0 (py_int (foldl deduct 100 vulns)))"

definition determine_risk_level :: "int \<Rightarrow> finding list \<Rightarrow> string" where
  "determine_risk_level score vulns =
    (let critical_vulns = length (filter (\<lambda>v. 9 \<le> get_or 0 (severity v)) vulns) in
     if 0 < critical_vulns \<or> score < 30 then ''CRITICAL''
     else if score < 50 then ''HIGH''
     else if score < 70 then ''MEDIUM''
     else if score < 85 then ''LOW''
     else ''MINIMAL'')"

definition quantum_safe_indicators :: "string list" where
  "quantum_safe_indicators =
    [''dilithium'', ''sphincs'', ''kyber'', ''ntru'', ''quantum_resistant'', ''post_quantum'',
     ''sha3'', ''sha256'']"

definition quantum_vulnerable_indicators :: "string list" where
  "quantum_vulnerable_indicators = [''ed25519'', ''secp256k1'', ''ecdsa'', ''rsa'']"

definition is_quantum_resistant :: "string \<Rightarrow> bool" where
  "is_quantum_resistant code =
    (let code_lower = lower code;
         has_safe = list_ex (\<lambda>indicator. contains code_lower indicator) quantum_safe_indicators;
         has_vulnerable =
           list_ex (\<lambda>indicator. contains code_lower indicator) quantum_vulnerable_indicators
     in has_safe \<or> \<not> has_vulnerable)"

text \<open>
  \<open>sorted(..., key = severity, reverse=True)\<close> is stable: findings of equal severity keep
  their order. It is the stable insertion sort on the negated key.
\<close>

definition sort_by_severity :: "finding list \<Rightarrow> finding list" where
  "sort_by_severity vulns = sort_key (\<lambda>x. - get_or 0 (severity x)) vulns"

definition format_recommendation :: "finding \<Rightarrow> string \<Rightarrow> string" where
  "format_recommendation vuln rec =
    ''['' @ upper (get_or ''unknown'' (ftype vuln)) @ ''] '' @ rec"

text \<open>The loop over the five most severe findings, with its list and its set \<open>seen\<close>.\<close>

fun add_unique :: "finding list \<Rightarrow> string list \<Rightarrow> string set \<Rightarrow> string list" where
  "add_unique [] recs seen = recs"
| "add_unique (vuln # vs) recs seen =
     (let rec = get_or [] (recommendation vuln) in
      if rec \<noteq> [] \<and> rec \<notin> seen
      then add_unique vs (recs @ [format_recommendation vuln rec]) (insert rec seen)
      else add_unique vs recs seen)"

definition generate_recommendations :: "finding list \<Rightarrow> string list" where
  "generate_recommendations vulns =
    (let sorted_vulns = sort_by_severity vulns;
         recs = add_unique (take 5 sorted_vulns) [] {};
         recs' = (if 5 < length vulns
                  then recs @ [''Address '' @ str_of_nat (length vulns - 5) @
                               '' additional findings in full report'']
                  else recs)
     in recs' @ [''Consider professional audit from Oak Security, Zellic, or Quantstamp'',
                 ''Implement quantum-resistant cryptography for future-proofing''])"

text \<open>
  \<open>analyze_program\<close>; the clock reading of \<open>_get_timestamp\<close> is the parameter \<open>now\<close>.
\<close>

definition analyze_program :: "string \<Rightarrow> string \<Rightarrow> int \<Rightarrow> py_error + DetectionResult" where
  "analyze_program program_code address now =
    (let pattern_findings =
           concat (map (\<lambda>pat. detect_pattern program_code pat) initialize_patterns)
     in case ml_anomaly_detection program_code of
          Inl e \<Rightarrow> Inl e
        | Inr ml_findings \<Rightarrow>
            let vulns = pattern_findings @ ml_findings @
                        assess_quantum_resistance program_code @
                        match_historical_exploits program_code;
                score = calculate_security_score vulns
            in Inr \<lparr>program_address = address,
                    vulnerabilities = vulns,
                    security_score = score,
                    risk_level = determine_risk_level score vulns,
                    recommendations = generate_recommendations vulns,
                    quantum_resistant = is_quantum_resistant program_code,
                    timestamp = now\<rparr>)"

section \<open>Properties stated by the specification\<close>

text \<open>
  The invariant of a finding in the data model: severity from 1 to 10 and confidence
  from 0 to 1, both present.
\<close>

definition finding_ok :: "finding \<Rightarrow> bool" where
  "finding_ok v =
    (case (severity v, confidence v) of
       (Some s, Some c) \<Rightarrow> 1 \<le> s \<and> s \<le> 10 \<and> 0 \<le> c \<and> c \<le> 1
     | _ \<Rightarrow> False)"

text \<open>
  The score as the specification words it: start at 100, subtract severity times
  confidence for each finding, truncate, clamp to the range from 0 to 100.
\<close>

definition spec_security_score :: "finding list \<Rightarrow> int" where
  "spec_security_score vulns =
    max 0 (min 100 (py_int
      (foldl (\<lambda>score v. fsub score (fmul (float_of_int (the (severity v))) (the (confidence v))))
             100 vulns)))"

text \<open>
  What every finding built by the detectors has: a recommendation text that is not empty
  and a category tag of ASCII characters without a closing bracket.
\<close>

definition recommendation_ok :: "finding \<Rightarrow> bool" where
  "recommendation_ok v =
    (get_or [] (recommendation v) \<noteq> [] \<and>
     list_all (\<lambda>c. c \<noteq> CHR '']'' \<and> (of_char c :: nat) < 128) (get_or ''unknown'' (ftype v)))"

text \<open>
  The recommendations as the specification words them: for each of the five most severe
  findings, "if its recommendation text has not already been added, append it prefixed by
  its uppercased category tag"; then the line about omitted findings; then the two
  closing recommendations.
\<close>

fun spec_pick :: "finding list \<Rightarrow> string list \<Rightarrow> string list" where
  "spec_pick [] added = []"
| "spec_pick (v # vs) added =
     (let rec = get_or [] (recommendation v) in
      if rec \<in> set added then spec_pick vs added
      else (''['' @ upper (get_or ''unknown'' (ftype v)) @ ''] '' @ rec) # spec_pick vs (rec # added))"

definition closing_recommendations :: "string list" where
  "closing_recommendations =
    [''Consider professional audit from Oak Security, Zellic, or Quantstamp'',
     ''Implement quantum-resistant cryptography for future-proofing'']"

definition spec_recommendations :: "finding list \<Rightarrow> string list" where
  "spec_recommendations vulns =
    spec_pick (take 5 (sort_by_severity vulns)) [] @
    (if 5 < length vulns
     then [''Address '' @ str_of_nat (length vulns - 5) @ '' additional findings in full report'']
     else []) @
    closing_recommendations"

text \<open>The text behind the tag of a formatted recommendation.\<close>

definition body :: "string \<Rightarrow> string" where
  "body s = drop 2 (dropWhile (\<lambda>c. c \<noteq> CHR '']'') s)"

text \<open>Seven findings, two pairs of them with the same recommendation text.\<close>

definition example_findings :: "finding list" where
  "example_findings =
    [\<lparr>ftype = Some ''quantum_vulnerable'', severity = Some 6, description = ''a'',
      location = [], confidence = Some (fl (95 / 100)),
      recommendation = Some ''Migrate to CRYSTALS-Dilithium or SPHINCS+''\<rparr>,
     \<lparr>ftype = Some ''reentrancy'', severity = Some 10, description = ''b'',
      location = [], confidence = Some (fl (95 / 100)),
      recommendation = Some ''Update state before making external calls''\<rparr>,
     \<lparr>ftype = Some ''quantum_vulnerable'', severity = Some 6, description = ''c'',
      location = [], confidence = Some (fl (95 / 100)),
      recommendation = Some ''Migrate to CRYSTALS-Dilithium or SPHINCS+''\<rparr>,
     \<lparr>ftype = Some ''missing_signer_check'', severity = Some 9, description = ''d'',
      location = [], confidence = Some (fl (85 / 100)),
      recommendation = Some ''Add require!''\<rparr>,
     \<lparr>ftype = Some ''quantum_vulnerable'', severity = Some 6, description = ''e'',
      location = [], confidence = Some (fl (75 / 100)),
      recommendation = Some ''Implement post-quantum cryptographic signatures''\<rparr>,
     \<lparr>ftype = Some ''quantum_vulnerable'', severity = Some 5, description = ''f'',
      location = [], confidence = Some (fl (95 / 100)),
      recommendation = Some ''Use AES-256 minimum''\<rparr>,
     \<lparr>ftype = Some ''quantum_vulnerable'', severity = Some 5, description = ''g'',
      location = [], confidence = Some (fl (95 / 100)),
      recommendation = Some ''Use AES-256 minimum''\<rparr>]"



text \<open>The findings of the pattern detectors and of the quantum assessor, in the order of the analysis.\<close>

definition all_findings :: "string \<Rightarrow> finding list" where
  "all_findings code =
    concat (map (\<lambda>pat. detect_pattern code pat) initialize_patterns) @
    assess_quantum_resistance code"

section \<open>Properties of the rounding\<close>

lemma pow2_powi: "pow2 e = 2 powi e"
  by (simp add: pow2_def power_int_def inverse_eq_divide power_one_over)

lemma pow2_pos: "0 < pow2 e"
  by (simp add: pow2_powi)

lemma pow2_add: "pow2 (a + b) = pow2 a * pow2 b"
  by (simp add: pow2_powi power_int_add)

lemma pow2_mono: "a \<le> b \<Longrightarrow> pow2 a \<le> pow2 b"
  by (simp add: pow2_powi power_int_increasing)

lemma pow2_nat: "0 \<le> e \<Longrightarrow> pow2 e = 2 ^ nat e"
  by (simp add: pow2_def)

lemma int_le_rat: "(i::int) \<le> j \<Longrightarrow> rat_of_int i \<le> rat_of_int j"
  by simp

lemma ilog2_bounds:
  assumes "0 < x"
  shows "pow2 (ilog2 x) \<le> x \<and> x < pow2 (ilog2 x + 1)"
proof (cases "1 \<le> x")
  case True
  define n where "n = \<lfloor>x\<rfloor>"
  have n: "0 < n" using True by (simp add: n_def)
  have bl: "1 \<le> bitlen n" using n by (simp add: bitlen_alt_def)
  from bitlen_bounds [OF n]
  have b: "2 ^ nat (bitlen n - 1) \<le> n" "n < 2 ^ nat (bitlen n)" by auto
  have e: "ilog2 x = bitlen n - 1" using True by (simp add: ilog2_def n_def)
  have "rat_of_int (2 ^ nat (bitlen n - 1)) \<le> of_int n"
    by (rule int_le_rat) (rule b(1))
  then have "2 ^ nat (bitlen n - 1) \<le> rat_of_int n" by simp
  moreover have "of_int n \<le> x" unfolding n_def by linarith
  ultimately have "2 ^ nat (bitlen n - 1) \<le> x" by (rule order_trans)
  then have lo: "pow2 (ilog2 x) \<le> x"
    using bl by (simp add: e pow2_nat)
  have "n + 1 \<le> 2 ^ nat (bitlen n)" using b(2) by simp
  then have "rat_of_int (n + 1) \<le> of_int (2 ^ nat (bitlen n))"
    by (rule int_le_rat)
  then have "rat_of_int n + 1 \<le> 2 ^ nat (bitlen n)" by simp
  moreover have "x < of_int n + 1" unfolding n_def by linarith
  ultimately have "x < 2 ^ nat (bitlen n)" by linarith
  then have hi: "x < pow2 (ilog2 x + 1)"
    using bl by (simp add: e pow2_nat)
  from lo hi show ?thesis by simp
next
  case False
  define c where "c = \<lceil>1 / x\<rceil>"
  define k where "k = bitlen (c - 1)"
  have x1: "1 < 1 / x" using False assms by simp
  have c1: "1 / x \<le> of_int c" "of_int c - 1 < 1 / x"
    using ceiling_correct [of "1 / x"] by (simp_all add: c_def)
  have "1 < rat_of_int c" using x1 c1(1) by (rule less_le_trans)
  then have cpos: "0 < c - 1" by simp
  from bitlen_bounds [OF cpos]
  have b: "2 ^ nat (k - 1) \<le> c - 1" "c - 1 < 2 ^ nat k" by (auto simp: k_def)
  have k1: "1 \<le> k" using cpos by (simp add: k_def bitlen_alt_def)
  have e: "ilog2 x = - k" using False by (simp add: ilog2_def c_def k_def)
  have "c \<le> 2 ^ nat k" using b(2) by simp
  then have "rat_of_int c \<le> of_int (2 ^ nat k)" by (rule int_le_rat)
  then have "rat_of_int c \<le> 2 ^ nat k" by simp
  with c1(1) have "1 / x \<le> 2 ^ nat k" by (rule order_trans)
  then have "1 \<le> 2 ^ nat k * x" using assms by (simp add: field_simps)
  then have lo: "pow2 (ilog2 x) \<le> x"
    using k1 by (simp add: e pow2_def field_simps)
  have "rat_of_int (2 ^ nat (k - 1)) \<le> of_int (c - 1)"
    by (rule int_le_rat) (rule b(1))
  then have "2 ^ nat (k - 1) \<le> rat_of_int c - 1" by simp
  with c1(2) have "2 ^ nat (k - 1) < 1 / x" by linarith
  then have h: "2 ^ nat (k - 1) * x < 1" using assms by (simp add: field_simps)
  have hi: "x < pow2 (ilog2 x + 1)"
  proof (cases "k = 1")
    case True
    then show ?thesis using h by (simp add: e pow2_def)
  next
    case False
    then have "nat (- (1 - k)) = nat (k - 1)" by simp
    then show ?thesis using h k1 False by (simp add: e pow2_def field_simps)
  qed
  from lo hi show ?thesis by simp
qed

lemma rhe_cases: "round_half_even m = \<lfloor>m\<rfloor> \<or> round_half_even m = \<lfloor>m\<rfloor> + 1"
  by (simp add: round_half_even_def Let_def)

lemma rhe_err: "\<bar>rat_of_int (round_half_even m) - m\<bar> \<le> 1 / 2"
proof -
  have "rat_of_int \<lfloor>m\<rfloor> \<le> m" "m < rat_of_int \<lfloor>m\<rfloor> + 1" by linarith+
  then show ?thesis
    unfolding round_half_even_def Let_def by (auto simp: abs_le_iff)
qed

lemma rhe_of_int: "round_half_even (of_int n) = n"
  by (simp add: round_half_even_def)

lemma rhe_mono:
  assumes "a \<le> b"
  shows "round_half_even a \<le> round_half_even b"
proof (cases "\<lfloor>a\<rfloor> < \<lfloor>b\<rfloor>")
  case True
  with rhe_cases [of a] rhe_cases [of b] show ?thesis by linarith
next
  case False
  with assms have eq: "\<lfloor>a\<rfloor> = \<lfloor>b\<rfloor>" by (simp add: floor_mono order_antisym)
  with assms show ?thesis
    unfolding round_half_even_def Let_def by auto
qed

lemma pow2_less_cancel: "pow2 a < pow2 b \<Longrightarrow> a < b"
  using pow2_mono [of b a] by (cases "a < b") auto

lemma ilog2_mono:
  assumes "0 < x" "x \<le> y"
  shows "ilog2 x \<le> ilog2 y"
proof -
  have "0 < y" using assms by simp
  from ilog2_bounds [OF assms(1)] ilog2_bounds [OF this] assms(2)
  have "pow2 (ilog2 x) < pow2 (ilog2 y + 1)" by linarith
  then show ?thesis using pow2_less_cancel by fastforce
qed

lemma ilog2_ge_1: "1 \<le> x \<Longrightarrow> 0 \<le> ilog2 x"
proof -
  assume "1 \<le> x"
  then have "0 < \<lfloor>x\<rfloor>" by simp
  then have "1 \<le> bitlen \<lfloor>x\<rfloor>" by (simp add: bitlen_alt_def)
  with \<open>1 \<le> x\<close> show ?thesis by (simp add: ilog2_def)
qed

lemma ulp_pos: "0 < ulp x"
  by (simp add: ulp_def pow2_pos)

lemma fl_pos_eq: "0 < x \<Longrightarrow> fl x = of_int (round_half_even (x / ulp x)) * ulp x"
  by (simp add: fl_def ulp_def Let_def)

lemma fl_0: "fl 0 = 0"
  by (simp add: fl_def)

lemma fl_neg: "fl (- x) = - fl x"
  by (simp add: fl_def Let_def sgn_minus)

lemma rhe_nonneg: "0 \<le> m \<Longrightarrow> 0 \<le> round_half_even m"
  using rhe_mono [of 0 m] rhe_of_int [of 0] by simp

lemma fl_nonneg: "0 \<le> x \<Longrightarrow> 0 \<le> fl x"
proof (cases "x = 0")
  case True
  then show ?thesis by (simp add: fl_0)
next
  case False
  assume "0 \<le> x"
  with False have x: "0 < x" by simp
  have "0 \<le> x / ulp x" using x ulp_pos [of x] by simp
  then have "0 \<le> round_half_even (x / ulp x)" by (rule rhe_nonneg)
  then show ?thesis using ulp_pos [of x] by (simp add: fl_pos_eq [OF x])
qed

lemma pow2_53: "pow2 (e + 1) = 2 ^ 53 * pow2 (e - 52)"
proof -
  have "pow2 (e + 1) = pow2 (53 + (e - 52))"
    by (rule arg_cong [where f = pow2]) simp
  also have "\<dots> = pow2 53 * pow2 (e - 52)" by (rule pow2_add)
  finally show ?thesis by (simp add: pow2_def)
qed

lemma pow2_52: "pow2 e = 2 ^ 52 * pow2 (e - 52)"
proof -
  have "pow2 e = pow2 (52 + (e - 52))"
    by (rule arg_cong [where f = pow2]) simp
  also have "\<dots> = pow2 52 * pow2 (e - 52)" by (rule pow2_add)
  finally show ?thesis by (simp add: pow2_def)
qed

lemma fl_upper:
  assumes "0 < x"
  shows "fl x \<le> pow2 (max (ilog2 x) (- 1022) + 1)"
proof -
  define e where "e = max (ilog2 x) (- 1022)"
  have u: "ulp x = pow2 (e - 52)" using assms by (simp add: ulp_def e_def)
  have "x < pow2 (ilog2 x + 1)" using ilog2_bounds [OF assms] by simp
  also have "\<dots> \<le> pow2 (e + 1)" by (rule pow2_mono) (simp add: e_def)
  finally have "x < 2 ^ 53 * ulp x" by (simp add: pow2_53 u)
  then have "x / ulp x \<le> rat_of_int (2 ^ 53)"
    using ulp_pos [of x] by (simp add: field_simps)
  from rhe_mono [OF this] have "round_half_even (x / ulp x) \<le> 2 ^ 53"
    by (simp only: rhe_of_int)
  then have "rat_of_int (round_half_even (x / ulp x)) \<le> rat_of_int (2 ^ 53)"
    by (rule int_le_rat)
  then have "rat_of_int (round_half_even (x / ulp x)) * ulp x \<le> 2 ^ 53 * ulp x"
    using ulp_pos [of x] by simp
  then show ?thesis
    by (simp add: fl_pos_eq [OF assms] pow2_53 [of e] u e_def [symmetric])
qed

lemma fl_lower:
  assumes "0 < x" "- 1022 \<le> ilog2 x"
  shows "pow2 (ilog2 x) \<le> fl x"
proof -
  define e where "e = ilog2 x"
  have u: "ulp x = pow2 (e - 52)" using assms by (simp add: ulp_def e_def max_def)
  have "2 ^ 52 * ulp x \<le> x"
    using ilog2_bounds [OF assms(1)] pow2_52 [of e] by (simp add: u e_def)
  then have "rat_of_int (2 ^ 52) \<le> x / ulp x"
    using ulp_pos [of x] by (simp add: field_simps)
  from rhe_mono [OF this] have "2 ^ 52 \<le> round_half_even (x / ulp x)"
    by (simp only: rhe_of_int)
  then have "rat_of_int (2 ^ 52) \<le> rat_of_int (round_half_even (x / ulp x))"
    by (rule int_le_rat)
  then have "2 ^ 52 * ulp x \<le> rat_of_int (round_half_even (x / ulp x)) * ulp x"
    using ulp_pos [of x] by simp
  then show ?thesis
    by (simp add: fl_pos_eq [OF assms(1)] pow2_52 [of e] u e_def [symmetric])
qed

lemma fl_mono_pos:
  assumes "0 < x" "x \<le> y"
  shows "fl x \<le> fl y"
proof -
  have y: "0 < y" using assms by simp
  define ex where "ex = max (ilog2 x) (- 1022)"
  define ey where "ey = max (ilog2 y) (- 1022)"
  have le: "ex \<le> ey" using ilog2_mono [OF assms] by (simp add: ex_def ey_def)
  show ?thesis
  proof (cases "ex = ey")
    case True
    then have u: "ulp x = ulp y" using assms y by (simp add: ulp_def ex_def ey_def)
    have "x / ulp y \<le> y / ulp y"
      using assms(2) ulp_pos [of y] by (simp add: divide_right_mono)
    from rhe_mono [OF this]
    have "rat_of_int (round_half_even (x / ulp y)) \<le> rat_of_int (round_half_even (y / ulp y))"
      by (rule int_le_rat)
    then show ?thesis
      using ulp_pos [of y] by (simp add: fl_pos_eq [OF assms(1)] fl_pos_eq [OF y] u)
  next
    case False
    with le have lt: "ex < ey" by simp
    then have n: "- 1022 \<le> ilog2 y" and eyy: "ey = ilog2 y"
      by (auto simp: ex_def ey_def)
    have "fl x \<le> pow2 (ex + 1)" using fl_upper [OF assms(1)] by (simp add: ex_def)
    also have "\<dots> \<le> pow2 ey" using lt by (intro pow2_mono) simp
    also have "\<dots> \<le> fl y" using fl_lower [OF y n] by (simp add: eyy)
    finally show ?thesis .
  qed
qed

lemma fl_mono:
  assumes "x \<le> y"
  shows "fl x \<le> fl y"
proof -
  consider "0 < x" | "x \<le> 0" "0 \<le> y" | "y < 0" by linarith
  then show ?thesis
  proof cases
    case 1
    then show ?thesis using assms by (rule fl_mono_pos)
  next
    case 2
    have "fl x = - fl (- x)" by (simp add: fl_neg)
    moreover have "0 \<le> fl (- x)" using 2(1) by (intro fl_nonneg) simp
    moreover have "0 \<le> fl y" using 2(2) by (rule fl_nonneg)
    ultimately show ?thesis by simp
  next
    case 3
    then have "0 < - y" "- y \<le> - x" using assms by simp_all
    then have "fl (- y) \<le> fl (- x)" by (rule fl_mono_pos)
    then show ?thesis by (simp add: fl_neg)
  qed
qed

lemma fl_rel_err:
  assumes "0 < x" "- 1022 \<le> ilog2 x"
  shows "x * (1 - 1 / 2 ^ 53) \<le> fl x" and "fl x \<le> x * (1 + 1 / 2 ^ 53)"
proof -
  define e where "e = ilog2 x"
  have u: "ulp x = pow2 (e - 52)" using assms by (simp add: ulp_def e_def max_def)
  have ux: "2 ^ 52 * ulp x \<le> x"
    using ilog2_bounds [OF assms(1)] pow2_52 [of e] by (simp add: u e_def)
  have "\<bar>rat_of_int (round_half_even (x / ulp x)) - x / ulp x\<bar> \<le> 1 / 2"
    by (rule rhe_err)
  then have "\<bar>rat_of_int (round_half_even (x / ulp x)) - x / ulp x\<bar> * ulp x \<le> 1 / 2 * ulp x"
    using ulp_pos [of x] by (simp only: mult_le_cancel_right) simp
  moreover have "\<bar>rat_of_int (round_half_even (x / ulp x)) - x / ulp x\<bar> * ulp x
     = \<bar>fl x - x\<bar>"
  proof -
    have "\<bar>rat_of_int (round_half_even (x / ulp x)) - x / ulp x\<bar> * ulp x
      = \<bar>rat_of_int (round_half_even (x / ulp x)) - x / ulp x\<bar> * \<bar>ulp x\<bar>"
      using ulp_pos [of x] by simp
    also have "\<dots> = \<bar>(rat_of_int (round_half_even (x / ulp x)) - x / ulp x) * ulp x\<bar>"
      by (simp only: abs_mult)
    also have "(rat_of_int (round_half_even (x / ulp x)) - x / ulp x) * ulp x
      = rat_of_int (round_half_even (x / ulp x)) * ulp x - x"
      using ulp_pos [of x] by (simp add: left_diff_distrib)
    finally show ?thesis by (simp add: fl_pos_eq [OF assms(1)])
  qed
  ultimately have d: "\<bar>fl x - x\<bar> \<le> ulp x / 2" by simp
  have "ulp x / 2 \<le> x / 2 ^ 53" using ux by simp
  with d have "\<bar>fl x - x\<bar> \<le> x / 2 ^ 53" by linarith
  then have "fl x - x \<le> x / 2 ^ 53" and "- (fl x - x) \<le> x / 2 ^ 53"
    unfolding abs_le_iff by blast+
  then show "x * (1 - 1 / 2 ^ 53) \<le> fl x" and "fl x \<le> x * (1 + 1 / 2 ^ 53)"
    by (simp_all add: algebra_simps)
qed

section \<open>Properties of the string operations\<close>

lemma starts_with_set: "starts_with s p \<Longrightarrow> set p \<subseteq> set s"
  by (induction s p rule: starts_with.induct) auto

lemma contains_set: "contains s sub \<Longrightarrow> set sub \<subseteq> set s"
proof (induction s)
  case Nil
  then show ?case by simp
next
  case (Cons c cs)
  then show ?case
    using starts_with_set [of "c # cs" sub] by auto
qed

lemma normalised_no_underscore:
  "CHR ''_'' \<notin> set (remove_chr (CHR '' '') (remove_chr (CHR ''_'') s))"
  by (simp add: remove_chr_def)

section \<open>The historical-exploit matcher\<close>

lemma signatures_have_underscore:
  "list_all (\<lambda>ex. CHR ''_'' \<in> set (pattern_signature ex)) load_historical_data"
  by (simp add: load_historical_data_def)

lemma normalised_contains_no_signature:
  assumes "CHR ''_'' \<in> set sg"
  shows "\<not> contains (remove_chr (CHR '' '') (remove_chr (CHR ''_'') (lower code))) sg"
  using assms contains_set normalised_no_underscore by blast

lemma match_historical_exploits_empty: "match_historical_exploits code = []"
  unfolding match_historical_exploits_def load_historical_data_def
  by (simp add: normalised_contains_no_signature)

text \<open>
  Claim C10. For every source the historical-exploit matcher returns the empty list:
  each signature of the registry contains an underscore, the source is searched after
  all its underscores and spaces have been deleted, and a text without underscores
  contains no such signature.
\<close>

theorem C10_historical_matcher_silent:
  "list_all (\<lambda>ex. CHR ''_'' \<in> set (pattern_signature ex)) load_historical_data
   \<and> CHR ''_'' \<notin> set (remove_chr (CHR '' '') (remove_chr (CHR ''_'') (lower code)))
   \<and> match_historical_exploits code = []"
  using signatures_have_underscore normalised_no_underscore match_historical_exploits_empty
  by blast

section \<open>Risk level\<close>

lemma critical_count_pos:
  "0 < length (filter (\<lambda>v. 9 \<le> get_or 0 (severity v)) vulns)
   \<longleftrightarrow> (\<exists>v \<in> set vulns. 9 \<le> get_or 0 (severity v))"
  by (simp add: filter_empty_conv)

text \<open>
  Claim C5. The risk level is decided in this order: CRITICAL when some finding has
  severity at least 9 or the score is below 30; otherwise HIGH below 50, MEDIUM below 70,
  LOW below 85, and MINIMAL from 85 on. So one finding of severity 9 gives CRITICAL
  whatever the score is.
\<close>

theorem C5_risk_level_priority:
  "determine_risk_level score vulns =
     (if (\<exists>v \<in> set vulns. 9 \<le> get_or 0 (severity v)) \<or> score < 30 then ''CRITICAL''
      else if score < 50 then ''HIGH''
      else if score < 70 then ''MEDIUM''
      else if score < 85 then ''LOW''
      else ''MINIMAL'')
   \<and> (v \<in> set vulns \<and> severity v = Some 9 \<longrightarrow>
        determine_risk_level score vulns = ''CRITICAL'')"
proof -
  have eq: "determine_risk_level score vulns =
     (if (\<exists>v \<in> set vulns. 9 \<le> get_or 0 (severity v)) \<or> score < 30 then ''CRITICAL''
      else if score < 50 then ''HIGH''
      else if score < 70 then ''MEDIUM''
      else if score < 85 then ''LOW''
      else ''MINIMAL'')"
    unfolding determine_risk_level_def Let_def critical_count_pos by simp
  have "determine_risk_level score vulns = ''CRITICAL''"
    if "v \<in> set vulns" and "severity v = Some 9"
  proof -
    have "9 \<le> get_or 0 (severity v)"
      using that by (simp add: get_or_def)
    with that have "\<exists>v \<in> set vulns. 9 \<le> get_or 0 (severity v)" by blast
    then show ?thesis by (simp add: eq)
  qed
  with eq show ?thesis by blast
qed

text \<open>
  One finding of severity 9 and confidence 0.95 leaves the score at 91, in the MINIMAL
  band, and the level is CRITICAL.
\<close>

theorem C5_risk_level_priority_witness:
  "(let v = \<lparr>ftype = Some ''missing_signer_check'', severity = Some 9, description = [],
              location = [], confidence = Some (fl (95 / 100)), recommendation = Some []\<rparr>
    in v \<in> set [v] \<and> severity v = Some 9 \<and> calculate_security_score [v] = 91
       \<and> determine_risk_level (calculate_security_score [v]) [v] = ''CRITICAL'')"
proof -
  define v where "v = \<lparr>ftype = Some ''missing_signer_check'', severity = Some 9,
    description = [], location = [], confidence = Some (fl (95 / 100)),
    recommendation = Some []\<rparr>"
  have s: "calculate_security_score [v] = 91"
    unfolding v_def by code_simp
  have m: "v \<in> set [v] \<and> severity v = Some 9"
    by (simp add: v_def)
  from C5_risk_level_priority [of "calculate_security_score [v]" "[v]" v] m
  have "determine_risk_level (calculate_security_score [v]) [v] = ''CRITICAL''"
    by blast
  with s m show ?thesis
    unfolding v_def Let_def by blast
qed

section \<open>Quantum resistance\<close>

lemma is_quantum_resistant_iff:
  "is_quantum_resistant code \<longleftrightarrow>
     list_ex (\<lambda>i. contains (lower code) i) quantum_safe_indicators
     \<or> \<not> list_ex (\<lambda>i. contains (lower code) i) quantum_vulnerable_indicators"
  by (simp add: is_quantum_resistant_def Let_def)

text \<open>
  Claim C8, at the source \<open>AES-128\<close>. The quantum assessor reports a finding (symmetric
  encryption, severity 5), the source contains none of the quantum-safe indicators, and
  yet \<open>is_quantum_resistant\<close> answers true: its own list of vulnerable indicators
  lacks the two AES names of the assessor's table.
\<close>

theorem C8_aes128_flagged_but_resistant:
  "map severity (assess_quantum_resistance ''AES-128'') = [Some 5]
   \<and> \<not> list_ex (\<lambda>i. contains (lower ''AES-128'') i) quantum_safe_indicators
   \<and> is_quantum_resistant ''AES-128''"
  by code_simp

section \<open>Security score\<close>

lemma fl_100: "fl 100 = 100"
  by code_simp

lemma deduct_le:
  assumes "finding_ok v" "score \<le> 100"
  shows "deduct score v \<le> 100"
proof -
  from assms(1) obtain s c where v: "severity v = Some s" "confidence v = Some c"
    and r: "1 \<le> s" "0 \<le> c"
    by (auto simp: finding_ok_def split: option.splits)
  have "0 \<le> float_of_int s" unfolding float_of_int_def using r(1) by (intro fl_nonneg) simp
  then have "0 \<le> fmul (float_of_int s) c"
    unfolding fmul_def using r(2) by (intro fl_nonneg) simp
  then have "score - fmul (float_of_int s) c \<le> 100" using assms(2) by simp
  from fl_mono [OF this] show ?thesis
    by (simp add: deduct_def fsub_def v get_or_def fl_100)
qed

lemma foldl_deduct_le:
  "list_all finding_ok vulns \<Longrightarrow> score \<le> 100 \<Longrightarrow> foldl deduct score vulns \<le> 100"
  by (induction vulns arbitrary: score) (simp_all add: deduct_le)

lemma foldl_deduct_spec:
  "list_all finding_ok vulns \<Longrightarrow>
   foldl deduct score vulns =
   foldl (\<lambda>score v. fsub score (fmul (float_of_int (the (severity v))) (the (confidence v))))
         score vulns"
proof (induction vulns arbitrary: score)
  case Nil
  then show ?case by simp
next
  case (Cons v vs)
  from Cons.prems obtain s c where v: "severity v = Some s" "confidence v = Some c"
    by (auto simp: finding_ok_def split: option.splits)
  show ?case using Cons by (simp add: deduct_def v get_or_def)
qed

lemma py_int_le: "x \<le> 100 \<Longrightarrow> py_int x \<le> 100"
  by (auto simp: py_int_def floor_le_iff ceiling_le_iff)

text \<open>
  Claim C4. The score of the empty list is 100 and no score is negative. For findings
  that keep the invariant of the data model (severity 1 to 10, confidence 0 to 1) the
  score is 100 minus severity times confidence for each finding in turn, in binary64
  arithmetic, truncated and clamped to the range from 0 to 100; it is at most 100.
\<close>

theorem C4_security_score:
  "calculate_security_score [] = 100
   \<and> 0 \<le> calculate_security_score vulns
   \<and> (list_all finding_ok vulns \<longrightarrow>
        calculate_security_score vulns = spec_security_score vulns
        \<and> calculate_security_score vulns \<le> 100)"
proof -
  have e: "calculate_security_score [] = 100"
    by (simp add: calculate_security_score_def)
  have n: "0 \<le> calculate_security_score vulns"
    by (simp add: calculate_security_score_def)
  have "calculate_security_score vulns = spec_security_score vulns
        \<and> calculate_security_score vulns \<le> 100" if ok: "list_all finding_ok vulns"
  proof (cases "vulns = []")
    case True
    then show ?thesis
      by (simp add: calculate_security_score_def spec_security_score_def py_int_def)
  next
    case False
    have b: "py_int (foldl deduct 100 vulns) \<le> 100"
      using foldl_deduct_le [OF ok, of 100] by (intro py_int_le) simp
    show ?thesis
      using False b
      by (simp add: calculate_security_score_def spec_security_score_def
          foldl_deduct_spec [OF ok, symmetric])
  qed
  with e n show ?thesis by blast
qed

text \<open>
  Two findings, 9 at confidence 0.85 and 6 at confidence 0.95: the running difference is
  86.64999999999999 and the score 86.
\<close>

theorem C4_security_score_witness:
  "(let ws = [\<lparr>ftype = Some ''missing_signer_check'', severity = Some 9, description = [],
               location = [], confidence = Some (fl (85 / 100)), recommendation = Some []\<rparr>,
              \<lparr>ftype = Some ''quantum_vulnerable'', severity = Some 6, description = [],
               location = [], confidence = Some (fl (95 / 100)), recommendation = Some []\<rparr>]
    in list_all finding_ok ws \<and> calculate_security_score ws = 86
       \<and> spec_security_score ws = 86)"
proof -
  define ws where "ws =
    [\<lparr>ftype = Some ''missing_signer_check'', severity = Some 9, description = [],
      location = [], confidence = Some (fl (85 / 100)), recommendation = Some []\<rparr>,
     \<lparr>ftype = Some ''quantum_vulnerable'', severity = Some 6, description = [],
      location = [], confidence = Some (fl (95 / 100)), recommendation = Some []\<rparr>]"
  have ok: "list_all finding_ok ws"
    unfolding ws_def by code_simp
  have v: "calculate_security_score ws = 86"
    unfolding ws_def by code_simp
  from C4_security_score [of ws] ok
  have "calculate_security_score ws = spec_security_score ws" by blast
  with ok v show ?thesis
    unfolding ws_def Let_def by simp
qed

section \<open>Recommendations\<close>

lemma add_unique_spec:
  "list_all recommendation_ok vs \<Longrightarrow>
   add_unique vs recs (set added) = recs @ spec_pick vs added"
proof (induction vs arbitrary: recs added)
  case Nil
  then show ?case by simp
next
  case (Cons v vs)
  from Cons.prems have okv: "recommendation_ok v" and ok: "list_all recommendation_ok vs"
    by simp_all
  from okv have ne: "get_or [] (recommendation v) \<noteq> []"
    by (simp add: recommendation_ok_def)
  show ?case
  proof (cases "get_or [] (recommendation v) \<in> set added")
    case True
    then show ?thesis using Cons.IH [OF ok] by (simp add: Let_def)
  next
    case False
    have "insert (get_or [] (recommendation v)) (set added)
        = set (get_or [] (recommendation v) # added)" by simp
    then show ?thesis
      using False ne Cons.IH [OF ok, of _ "get_or [] (recommendation v) # added"]
      by (simp add: Let_def format_recommendation_def del: set_simps)
  qed
qed

lemma upper_chr_bracket: "c \<noteq> CHR '']'' \<Longrightarrow> upper_chr c \<noteq> CHR '']''"
proof
  assume c: "c \<noteq> CHR '']''" and u: "upper_chr c = CHR '']''"
  define n where "n = (of_char c :: nat)"
  show False
  proof (cases "97 \<le> n \<and> n \<le> 122")
    case True
    with u have "char_of (n - 32) = CHR '']''"
      by (simp add: upper_chr_def n_def Let_def)
    then have "(of_char (char_of (n - 32) :: char) :: nat) = of_char (CHR '']'')"
      by simp
    then have "(n - 32) mod 256 = 93" by (simp add: of_char_of)
    moreover have "n - 32 < 256" using True by linarith
    then have "(n - 32) mod 256 = n - 32" by (rule mod_less)
    ultimately show False using True by linarith
  next
    case False
    with u c show False by (auto simp: upper_chr_def n_def Let_def)
  qed
qed

lemma body_format:
  assumes "list_all (\<lambda>c. c \<noteq> CHR '']'' \<and> (of_char c :: nat) < 128) t"
  shows "body (''['' @ upper t @ ''] '' @ r) = r"
proof -
  have "list_all (\<lambda>c. c \<noteq> CHR '']'') (upper t)"
    using assms by (induction t) (simp_all add: upper_def upper_chr_bracket)
  then have "dropWhile (\<lambda>c. c \<noteq> CHR '']'') (upper t @ ''] '' @ r) = ''] '' @ r"
    by (induction "upper t" arbitrary: t) (auto simp: list_all_iff dropWhile_append)
  then show ?thesis by (simp add: body_def)
qed

lemma spec_pick_body:
  "list_all recommendation_ok vs \<Longrightarrow>
   distinct (map body (spec_pick vs added)) \<and> set (map body (spec_pick vs added)) \<inter> set added = {}"
proof (induction vs arbitrary: added)
  case Nil
  then show ?case by simp
next
  case (Cons v vs)
  from Cons.prems have okv: "recommendation_ok v" and ok: "list_all recommendation_ok vs"
    by simp_all
  from okv have t: "list_all (\<lambda>c. c \<noteq> CHR '']'' \<and> (of_char c :: nat) < 128)
      (get_or ''unknown'' (ftype v))"
    by (simp add: recommendation_ok_def)
  show ?case
  proof (cases "get_or [] (recommendation v) \<in> set added")
    case True
    then show ?thesis using Cons.IH [OF ok, of added] by (simp add: Let_def)
  next
    case False
    from Cons.IH [OF ok, of "get_or [] (recommendation v) # added"] False
    show ?thesis
      by (simp add: Let_def body_format [OF t] del: append.simps)
  qed
qed

lemma spec_pick_distinct: "list_all recommendation_ok vs \<Longrightarrow> distinct (spec_pick vs added)"
  using spec_pick_body [of vs added] distinct_map by blast

lemma spec_pick_hd: "s \<in> set (spec_pick vs added) \<Longrightarrow> hd s = CHR ''[''"
  by (induction vs arbitrary: added) (auto simp: Let_def split: if_splits)

lemma sort_by_severity_set: "set (sort_by_severity vulns) = set vulns"
  by (simp add: sort_by_severity_def)

lemma sort_by_severity_sorted:
  "sorted_wrt (\<lambda>a b. get_or 0 (severity b) \<le> get_or 0 (severity a)) (sort_by_severity vulns)"
proof -
  have "sorted (map (\<lambda>x. - get_or 0 (severity x)) (sort_by_severity vulns))"
    unfolding sort_by_severity_def by (rule sorted_sort_key)
  then show ?thesis by (simp add: sorted_map)
qed

lemma sort_by_severity_stable:
  "filter (\<lambda>v. get_or 0 (severity v) = k) (sort_by_severity vulns)
   = filter (\<lambda>v. get_or 0 (severity v) = k) vulns"
  using sort_key_stable [of "\<lambda>x. - get_or 0 (severity x)" "- k" vulns]
  by (simp add: sort_by_severity_def)

lemma generate_recommendations_spec:
  assumes "list_all recommendation_ok vulns"
  shows "generate_recommendations vulns = spec_recommendations vulns"
proof -
  have "list_all recommendation_ok (take 5 (sort_by_severity vulns))"
    using assms sort_by_severity_set [of vulns]
    by (auto simp: list_all_iff dest: in_set_takeD)
  from add_unique_spec [OF this, of "[]" "[]"] show ?thesis
    by (simp add: generate_recommendations_def spec_recommendations_def Let_def
        closing_recommendations_def)
qed

lemma spec_recommendations_distinct:
  assumes "list_all recommendation_ok vulns"
  shows "distinct (spec_recommendations vulns)"
proof -
  have ok: "list_all recommendation_ok (take 5 (sort_by_severity vulns))"
    using assms sort_by_severity_set [of vulns]
    by (auto simp: list_all_iff dest: in_set_takeD)
  have d: "distinct (spec_pick (take 5 (sort_by_severity vulns)) [])"
    using ok by (rule spec_pick_distinct)
  have h: "hd s = CHR ''[''" if "s \<in> set (spec_pick (take 5 (sort_by_severity vulns)) [])" for s
    using that by (rule spec_pick_hd)
  have n1: "''Address '' @ str_of_nat (length vulns - 5) @ '' additional findings in full report''
      \<notin> set (spec_pick (take 5 (sort_by_severity vulns)) [])"
    using h by fastforce
  have n2: "''Consider professional audit from Oak Security, Zellic, or Quantstamp''
      \<notin> set (spec_pick (take 5 (sort_by_severity vulns)) [])"
    using h by fastforce
  have n3: "''Implement quantum-resistant cryptography for future-proofing''
      \<notin> set (spec_pick (take 5 (sort_by_severity vulns)) [])"
    using h by fastforce
  show ?thesis
    using d n1 n2 n3
    by (simp add: spec_recommendations_def closing_recommendations_def)
qed

text \<open>
  Claim C9. The findings are sorted by severity, highest first, findings of equal
  severity keeping their order. For findings with a recommendation text and a tag as the
  detectors build them, the list is the specification's: the recommendation of each of
  the first five, tagged, unless its text was added before; one line about the omitted
  findings when there are more than five; the two closing recommendations. It has no
  duplicates, and for no findings it is the two closing recommendations.
\<close>

theorem C9_recommendations:
  "sorted_wrt (\<lambda>a b. get_or 0 (severity b) \<le> get_or 0 (severity a)) (sort_by_severity vulns)
   \<and> (\<forall>k. filter (\<lambda>v. get_or 0 (severity v) = k) (sort_by_severity vulns)
          = filter (\<lambda>v. get_or 0 (severity v) = k) vulns)
   \<and> generate_recommendations [] = closing_recommendations
   \<and> (list_all recommendation_ok vulns \<longrightarrow>
        generate_recommendations vulns = spec_recommendations vulns
        \<and> distinct (generate_recommendations vulns))"
proof -
  have "generate_recommendations [] = closing_recommendations"
    by (simp add: generate_recommendations_def sort_by_severity_def closing_recommendations_def)
  then show ?thesis
    using sort_by_severity_sorted sort_by_severity_stable
      generate_recommendations_spec spec_recommendations_distinct
    by auto
qed

theorem C9_recommendations_witness:
  "list_all recommendation_ok example_findings
   \<and> generate_recommendations example_findings =
      [''[REENTRANCY] Update state before making external calls'',
       ''[MISSING_SIGNER_CHECK] Add require!'',
       ''[QUANTUM_VULNERABLE] Migrate to CRYSTALS-Dilithium or SPHINCS+'',
       ''[QUANTUM_VULNERABLE] Implement post-quantum cryptographic signatures'',
       ''Address 2 additional findings in full report'',
       ''Consider professional audit from Oak Security, Zellic, or Quantstamp'',
       ''Implement quantum-resistant cryptography for future-proofing'']
   \<and> generate_recommendations example_findings = spec_recommendations example_findings
   \<and> distinct (generate_recommendations example_findings)"
proof -
  have ok: "list_all recommendation_ok example_findings"
    unfolding example_findings_def by code_simp
  have v: "generate_recommendations example_findings =
      [''[REENTRANCY] Update state before making external calls'',
       ''[MISSING_SIGNER_CHECK] Add require!'',
       ''[QUANTUM_VULNERABLE] Migrate to CRYSTALS-Dilithium or SPHINCS+'',
       ''[QUANTUM_VULNERABLE] Implement post-quantum cryptographic signatures'',
       ''Address 2 additional findings in full report'',
       ''Consider professional audit from Oak Security, Zellic, or Quantstamp'',
       ''Implement quantum-resistant cryptography for future-proofing'']"
    unfolding example_findings_def by code_simp
  from C9_recommendations [of example_findings] ok
  have "generate_recommendations example_findings = spec_recommendations example_findings
        \<and> distinct (generate_recommendations example_findings)"
    by blast
  with ok v show ?thesis by blast
qed

section \<open>Anomaly score\<close>

lemma starts_with_length: "starts_with s p \<Longrightarrow> length p \<le> length s"
  by (induction s p rule: starts_with.induct) auto

lemma count_from_bound: "count_from s sub skip * length sub \<le> length s - skip"
proof (induction s arbitrary: skip)
  case Nil
  then show ?case by simp
next
  case (Cons c cs)
  show ?case
  proof (cases "0 < skip")
    case True
    then show ?thesis using Cons [of "skip - 1"] by simp
  next
    case False
    show ?thesis
    proof (cases "starts_with (c # cs) sub")
      case True
      from starts_with_length [OF this] have "length sub \<le> Suc (length cs)" by simp
      with Cons [of "length sub - 1"] True False show ?thesis
        by (cases "length sub") (simp_all add: algebra_simps)
    next
      case nm: False
      with Cons [of 0] False show ?thesis by simp
    qed
  qed
qed

lemma str_count_bound: "sub \<noteq> [] \<Longrightarrow> str_count s sub * length sub \<le> length s"
  using count_from_bound [of s sub 0] by (simp add: str_count_def)

lemma fl_quarter: "fl (1 / 4) = 1 / 4" by code_simp
lemma fl_1: "fl 1 = 1" by code_simp

lemma ratio_bound:
  assumes n: "6 * n \<le> len" and mx: "fl (of_nat len) \<le> mx" and eps: "0 \<le> eps"
  shows "0 \<le> fdiv (fl (of_nat n)) (fadd mx eps) \<and> fdiv (fl (of_nat n)) (fadd mx eps) \<le> 1 / 4"
proof (cases "n = 0")
  case True
  then show ?thesis by (simp add: fdiv_def fl_0)
next
  case False
  define d :: rat where "d = 1 / 2 ^ 53"
  have n1: "1 \<le> (of_nat n :: rat)" using False by simp
  have l1: "1 \<le> (of_nat len :: rat)" using False n by simp
  have A: "fl (of_nat n) \<le> of_nat n * (1 + d)"
    unfolding d_def using n1 ilog2_ge_1 [OF n1] by (intro fl_rel_err) simp_all
  have A0: "0 \<le> fl (of_nat n)" by (intro fl_nonneg) simp
  have B: "of_nat len * (1 - d) \<le> fl (of_nat len)"
    unfolding d_def using l1 ilog2_ge_1 [OF l1] by (intro fl_rel_err) simp_all
  have B1: "1 \<le> fl (of_nat len)" using fl_mono [OF l1] by (simp add: fl_1)
  have s1: "1 \<le> mx + eps" using B1 mx eps by linarith
  have D: "(mx + eps) * (1 - d) \<le> fadd mx eps"
    unfolding d_def fadd_def using s1 ilog2_ge_1 [OF s1] by (intro fl_rel_err) simp_all
  have dpos: "0 \<le> 1 - d" by (simp add: d_def)
  have "fl (of_nat len) * (1 - d) \<le> (mx + eps) * (1 - d)"
    using mx eps dpos by (intro mult_right_mono) simp_all
  moreover have "of_nat len * (1 - d) * (1 - d) \<le> fl (of_nat len) * (1 - d)"
    using B dpos by (intro mult_right_mono) simp_all
  ultimately have D2: "of_nat len * ((1 - d) * (1 - d)) \<le> fadd mx eps"
    using D by (simp add: mult.assoc)
  have "(of_nat (6 * n) :: rat) \<le> of_nat len" using n by (simp only: of_nat_le_iff)
  then have n6: "6 * (of_nat n :: rat) \<le> of_nat len" by simp
  have "4 * fl (of_nat n) \<le> 4 * (of_nat n * (1 + d))" using A by simp
  also have "\<dots> = (6 * of_nat n) * (2 / 3 * (1 + d))" by simp
  also have "\<dots> \<le> of_nat len * (2 / 3 * (1 + d))"
    using n6 by (intro mult_right_mono) (simp_all add: d_def)
  also have "\<dots> \<le> of_nat len * ((1 - d) * (1 - d))"
    by (intro mult_left_mono) (simp_all add: d_def)
  also note D2
  finally have q: "4 * fl (of_nat n) \<le> fadd mx eps" .
  have Dpos: "0 < fadd mx eps" using q A0 n1 fl_mono [OF n1] by (simp add: fl_1)
  have "fl (of_nat n) / fadd mx eps \<le> 1 / 4"
    using q Dpos by (simp add: field_simps)
  from fl_mono [OF this] have u: "fdiv (fl (of_nat n)) (fadd mx eps) \<le> 1 / 4"
    by (simp add: fdiv_def fl_quarter)
  have "0 \<le> fl (of_nat n) / fadd mx eps" using A0 Dpos by simp
  from fl_nonneg [OF this] u show ?thesis by (simp add: fdiv_def)
qed


lemma foldl_max_ge: "(a :: rat) \<le> foldl max a xs"
proof (induction xs arbitrary: a)
  case Nil
  then show ?case by simp
next
  case (Cons x xs)
  have "a \<le> max a x" by simp
  also have "\<dots> \<le> foldl max (max a x) xs" by (rule Cons)
  finally show ?case by simp
qed

lemma extract_features_bounds:
  "length (extract_features code) = 8
   \<and> 0 \<le> extract_features code ! 3 \<and> extract_features code ! 3 \<le> 1 / 4
   \<and> 0 \<le> extract_features code ! 7 \<and> extract_features code ! 7 \<le> 1 / 4"
proof -
  define arr where "arr = map (\<lambda>n. float_of_int (int n))
    [length code, str_count code [newline], str_count code ''fn '',
     str_count code ''require!'', str_count code ''invoke'',
     str_count code ''Transfer'', str_count code ''mut '', str_count code ''unsafe'']"
  define mx where "mx = foldl max (hd arr) (tl arr)"
  define eps where "eps = fl (1 / 10 ^ 10)"
  have ef: "extract_features code = map (\<lambda>x. fdiv x (fadd mx eps)) arr"
    unfolding extract_features_def Let_def arr_def mx_def eps_def by (rule refl)
  have len: "length arr = 8" by (simp add: arr_def)
  have a3: "arr ! 3 = fl (of_nat (str_count code ''require!''))"
    by (simp add: arr_def float_of_int_def)
  have a7: "arr ! 7 = fl (of_nat (str_count code ''unsafe''))"
    by (simp add: arr_def float_of_int_def)
  have a0: "hd arr = fl (of_nat (length code))"
    by (simp add: arr_def float_of_int_def)
  have m: "fl (of_nat (length code)) \<le> mx"
    unfolding mx_def a0 [symmetric] by (rule foldl_max_ge)
  have e: "0 \<le> eps" unfolding eps_def by (intro fl_nonneg) simp
  have "str_count code ''require!'' * length ''require!'' \<le> length code"
    by (rule str_count_bound) simp
  then have c3: "6 * str_count code ''require!'' \<le> length code" by simp
  have "str_count code ''unsafe'' * length ''unsafe'' \<le> length code"
    by (rule str_count_bound) simp
  then have c7: "6 * str_count code ''unsafe'' \<le> length code" by simp
  have n3: "extract_features code ! 3 = fdiv (fl (of_nat (str_count code ''require!''))) (fadd mx eps)"
    using len by (simp add: ef a3)
  have n7: "extract_features code ! 7 = fdiv (fl (of_nat (str_count code ''unsafe''))) (fadd mx eps)"
    using len by (simp add: ef a7)
  have l: "length (extract_features code) = 8" by (simp add: ef len)
  from ratio_bound [OF c3 m e] ratio_bound [OF c7 m e] l show ?thesis
    unfolding n3 n7 by blast
qed

lemma fl_tenth: "fl (1 / 10) = 3602879701896397 / 36028797018963968" by code_simp
lemma fl_hundredth: "fl (1 / 100) = 5764607523034235 / 576460752303423488" by code_simp
lemma fl_07: "fl (7 / 10) = 3152519739159347 / 4503599627370496" by code_simp
lemma fl_dyadic:
  "fl (5 / 32) = 5 / 32" "fl (1 / 8) = 1 / 8" "fl (31 / 128) = 31 / 128" "fl (1 / 64) = 1 / 64"
  "fl (155 / 128) = 155 / 128" "fl (175 / 128) = 175 / 128" "fl (175 / 256) = 175 / 256"
  by code_simp+

lemma fl_le: "x \<le> b \<Longrightarrow> fl b = b \<Longrightarrow> fl x \<le> b"
  using fl_mono [of x b] by simp

lemma fl_ge: "- b \<le> x \<Longrightarrow> fl b = b \<Longrightarrow> - b \<le> fl x"
  using fl_mono [of "- b" x] by (simp add: fl_neg)

lemma score_bound:
  assumes "0 \<le> f3" "f3 \<le> 1 / 4" "0 \<le> f7" "f7 \<le> 1 / 4"
  shows "py_min (fdiv (fadd \<bar>fsub f3 (fl (1 / 10))\<bar> (fmul \<bar>fsub f7 (fl (1 / 100))\<bar> 5)) 2) 1
         \<le> 175 / 256"
proof -
  define a where "a = fsub f3 (fl (1 / 10))"
  define b where "b = fsub f7 (fl (1 / 100))"
  have "a \<le> 5 / 32" unfolding a_def fsub_def
    using assms(2) by (intro fl_le) (simp_all add: fl_tenth fl_dyadic)
  moreover have "- (1 / 8) \<le> a" unfolding a_def fsub_def
    using assms(1) by (intro fl_ge) (simp_all add: fl_tenth fl_dyadic)
  ultimately have a: "\<bar>a\<bar> \<le> 5 / 32" by (simp add: abs_le_iff)
  have "b \<le> 31 / 128" unfolding b_def fsub_def
    using assms(4) by (intro fl_le) (simp_all add: fl_hundredth fl_dyadic)
  moreover have "- (1 / 64) \<le> b" unfolding b_def fsub_def
    using assms(3) by (intro fl_ge) (simp_all add: fl_hundredth fl_dyadic)
  ultimately have b: "\<bar>b\<bar> \<le> 31 / 128" by (simp add: abs_le_iff)
  have m: "fmul \<bar>b\<bar> 5 \<le> 155 / 128" unfolding fmul_def
    using b by (intro fl_le) (simp_all add: fl_dyadic)
  have s: "fadd \<bar>a\<bar> (fmul \<bar>b\<bar> 5) \<le> 175 / 128" unfolding fadd_def
    using a m by (intro fl_le) (simp_all add: fl_dyadic)
  have d: "fdiv (fadd \<bar>a\<bar> (fmul \<bar>b\<bar> 5)) 2 \<le> 175 / 256" unfolding fdiv_def
    using s by (intro fl_le) (simp_all add: fl_dyadic)
  then show ?thesis
    unfolding a_def [symmetric] b_def [symmetric] by (simp add: py_min_def)
qed

lemma anomaly_score_bound:
  "\<exists>s. compute_anomaly_score (extract_features code) = Inr s \<and> s \<le> 175 / 256"
  using extract_features_bounds [of code] score_bound
  by (simp add: compute_anomaly_score_def Let_def)

lemma threshold_above: "175 / 256 < fl (7 / 10)"
  by (simp add: fl_07)

lemma ml_anomaly_detection_silent: "ml_anomaly_detection code = Inr []"
proof -
  from anomaly_score_bound [of code] obtain s
    where s: "compute_anomaly_score (extract_features code) = Inr s" "s \<le> 175 / 256"
    by blast
  with threshold_above have "\<not> fl (7 / 10) < s" by linarith
  with s(1) show ?thesis by (simp add: ml_anomaly_detection_def)
qed



section \<open>The analysis as a whole\<close>

text \<open>
  The anomaly detector and the historical matcher contribute no finding, so the analysis
  never raises and its findings are those of the patterns and of the quantum assessor.
\<close>

lemma analyze_program_eq:
  "analyze_program code address now =
     Inr \<lparr>program_address = address,
          vulnerabilities = all_findings code,
          security_score = calculate_security_score (all_findings code),
          risk_level = determine_risk_level (calculate_security_score (all_findings code))
                         (all_findings code),
          recommendations = generate_recommendations (all_findings code),
          quantum_resistant = is_quantum_resistant code,
          timestamp = now\<rparr>"
  unfolding analyze_program_def all_findings_def
  by (simp add: ml_anomaly_detection_silent match_historical_exploits_empty Let_def)

lemma empty_patterns: "concat (map (\<lambda>pat. detect_pattern [] pat) initialize_patterns) = []"
  by (simp add: initialize_patterns_def detect_pattern_def finditer_def match_at_def)

lemma empty_quantum: "assess_quantum_resistance [] = []"
  by (simp add: assess_quantum_resistance_def initialize_quantum_patterns_def lower_def)

lemma empty_findings: "all_findings [] = []"
  by (simp add: all_findings_def empty_patterns empty_quantum)

lemma empty_resistant: "is_quantum_resistant []"
  by (simp add: is_quantum_resistant_def lower_def quantum_safe_indicators_def
      quantum_vulnerable_indicators_def)

lemma empty_recommendations:
  "generate_recommendations [] =
    [''Consider professional audit from Oak Security, Zellic, or Quantstamp'',
     ''Implement quantum-resistant cryptography for future-proofing'']"
  by (simp add: generate_recommendations_def sort_by_severity_def)

lemma empty_level: "determine_risk_level 100 [] = ''MINIMAL''"
  by (simp add: determine_risk_level_def)

text \<open>
  Claim C6. The analysis of the empty source returns a result, not an error; the result
  has no findings, score 100 and risk level MINIMAL (and the two closing recommendations,
  and it counts as quantum resistant).
\<close>

theorem C6_empty_source:
  "analyze_program [] address now =
     Inr \<lparr>program_address = address, vulnerabilities = [], security_score = 100,
          risk_level = ''MINIMAL'',
          recommendations =
            [''Consider professional audit from Oak Security, Zellic, or Quantstamp'',
             ''Implement quantum-resistant cryptography for future-proofing''],
          quantum_resistant = True, timestamp = now\<rparr>"
  by (simp add: analyze_program_eq empty_findings empty_resistant empty_recommendations
      empty_level calculate_security_score_def)

end
